theory Spec2Isabelle
  imports Main
begin

section \<open>Data model\<close>

text \<open>
  Go strings are byte sequences, and so is \<^typ>\<open>string\<close>. Clock readings are
  monotonic nanoseconds, a \<open>time.Duration\<close> is a number of nanoseconds.

  A Go \<open>error\<close> is kept structured instead of formatted: an error of a library, a
  constant message, \<open>fmt.Errorf("...: %v", err)\<close> and \<open>fmt.Errorf("...: %d", n)\<close>.
\<close>

datatype error =
    LibError string
  | Plain string
  | Wrapped string error
  | WithCode string int

text \<open>
  A part carries a text. (In the newer file of the handler a part can also refer to an
  uploaded file; the text handler builds and reads parts by their text only.)
\<close>

record Part =
  Text :: string

text \<open>A candidate of the response: the anonymous struct whose only field is \<open>Content.Parts\<close>.\<close>

record Candidate =
  Content_Parts :: "Part list"

record GeminiResponse =
  Candidates :: "Candidate list"

text \<open>The handle of a sent chat message (\<open>*tele.Message\<close>), identified by its ID.\<close>

datatype tele_Message = TeleMessage int

text \<open>
  The conversation history of the remote store: a stored turn, and the record of a
  user.
\<close>

record Message =
  role :: string
  message :: string

record UserMessages =
  ID :: int
  TelegramID :: int
  Username :: string
  Messages :: "Message list"

text \<open>The request to the generation endpoint.\<close>

record Content =
  Role :: string
  Parts :: "Part list"

record Safety =
  Category :: string
  Threshold :: string

record GeminiRequest =
  SystemInstruction :: Content
  Contents :: "Content list"
  SafetySettings :: "Safety list"

text \<open>
  The two addresses of the store: \<open>"%susers?telegramId=%d"\<close> and \<open>"%susers/%d"\<close>, each
  with the base address and the number.
\<close>

datatype url =
    UsersByTelegramId string int
  | UserById string int

text \<open>
  One constructor for each \<open>log.Printf\<close> and \<open>log.Println\<close> of the text handler
  and of the functions it calls, with its arguments.
\<close>

datatype log_entry =
    RawDataCausingError string
  | RawLine string
  | ErrorParsingSSE error
  | ReceivedChunk string
  | ErrorSendingFirstChunk error
  | ErrorUpdatingMessage error
  | ErrorSendingFinalUpdate error
  | ErrorSavingMessages error
  | UnexpectedStatusCode int
  | ErrorSendingErrorMessage error
  | ErrorGettingPreviousMessages error
  | HistoryExceeds int
  | CleanedUp int
  | ErrorDuringCleanup error
  | ErrorMarshalingRequestBody error
  | SendingRequest GeminiRequest
  | ErrorCreatingRequest error
  | ErrorMakingRequest error

text \<open>
  What the handler does to the outside, in order. An outbound call (\<open>b.Send\<close>, \<open>b.Edit\<close>)
  is recorded with its outcome and with the clock reading the handler stores in
  \<open>lastUpdate\<close> right after it (\<open>None\<close> where the handler takes no reading).
  \<open>CtxSend\<close> is \<open>c.Send\<close>, \<open>Notify\<close> is \<open>c.Notify(tele.Typing)\<close>, \<open>SaveMessage\<close> is the call
  of \<open>saveMessage\<close> with the user id, the user's text and the model's text, and the
  last three are the requests to the store and to the generation endpoint.
\<close>

datatype call =
    Send string
  | Edit "tele_Message option" string

datatype event =
    Log log_entry
  | Outbound call "error option" "int option"
  | Notify
  | CtxSend string "error option"
  | SaveMessage int string string "error option"
  | HttpGet url
  | HttpPatch url UserMessages
  | HttpPost GeminiRequest

section \<open>Decoding one line\<close>

definition HasPrefix :: "string \<Rightarrow> string \<Rightarrow> bool" where
  "HasPrefix s p = (take (length p) s = p)"

definition TrimPrefix :: "string \<Rightarrow> string \<Rightarrow> string" where
  "TrimPrefix s p = (if HasPrefix s p then drop (length p) s else s)"

definition TrimLeft :: "string \<Rightarrow> string \<Rightarrow> string" where
  "TrimLeft s cutset = dropWhile (\<lambda>c. c \<in> set cutset) s"

text \<open>The cutset \<open>" \t\r\n\x00\x1b"\<close>.\<close>

definition cutset :: string where
  "cutset = [CHR '' '', CHR 0x09, CHR 0x0D, CHR 0x0A, CHR 0x00, CHR 0x1B]"

text \<open>
  \<open>parseSSEResponse\<close>. The decoder \<open>json.Unmarshal\<close> into a \<open>GeminiResponse\<close> belongs to
  the standard library and is a parameter. The result is the pair the Go function
  returns (\<open>Inl\<close> the error, \<open>Inr None\<close> for \<open>nil, nil\<close>), with what it logs.
\<close>

definition parseSSEResponse ::
  "(string \<Rightarrow> error + GeminiResponse) \<Rightarrow> string \<Rightarrow> (error + GeminiResponse option) \<times> event list"
where
  "parseSSEResponse unmarshal line =
    (if \<not> HasPrefix line ''data: '' then (Inr None, [])
     else
       let data = TrimPrefix line ''data: '' in
       if data = ''[DONE]'' then (Inr None, [])
       else
         let data = TrimLeft data cutset in
         case unmarshal data of
           Inl err \<Rightarrow> (Inl (Wrapped ''unmarshal error'' err), [Log (RawDataCausingError data)])
         | Inr resp \<Rightarrow> (Inr (Some resp), []))"

section \<open>The streaming loop of the text handler\<close>

text \<open>\<open>time.Duration\<close> is an \<open>int64\<close>; \<open>Time.Sub\<close> saturates at its bounds.\<close>

definition maxDuration :: int where
  "maxDuration = 2 ^ 63 - 1"

definition minDuration :: int where
  "minDuration = - (2 ^ 63)"

definition Sub :: "int \<Rightarrow> int \<Rightarrow> int" where
  "Sub t u =
    (let d = t - u in
     if maxDuration < d then maxDuration else if d < minDuration then minDuration else d)"

definition updateInterval :: int where
  "updateInterval = 500 * 1000000"

text \<open>
  A line of the response body, with what the environment answers while the handler
  works on it: the clock read by \<open>time.Since\<close>, the outcome of the outbound call if
  one is made, and the clock read by \<open>time.Now\<close> after the call.
\<close>

record arrival =
  line :: string
  since_clock :: int
  delivery :: "error + tele_Message"
  now_clock :: int

text \<open>
  The local variables of the handler that the loop changes. \<open>lastUpdate\<close> starts as the
  zero time and is read only after the first sending has stored a reading.
\<close>

record locals =
  fullResponse :: string
  msg :: "tele_Message option"
  lastUpdate :: int
  firstChunk :: bool

definition initial :: locals where
  "initial = \<lparr>fullResponse = [], msg = None, lastUpdate = 0, firstChunk = True\<rparr>"

text \<open>A pass through the loop body goes on to the next line or returns from the handler.\<close>

datatype flow =
    Continue locals
  | Return "error option"

definition err_of :: "error + 'a \<Rightarrow> error option" where
  "err_of r = (case r of Inl e \<Rightarrow> Some e | Inr _ \<Rightarrow> None)"

text \<open>
  The innermost block of the loop body, for a chunk: it is logged and appended, and
  then sent as the first chunk, or used for an edit when the interval has passed.
\<close>

definition on_chunk :: "arrival \<Rightarrow> string \<Rightarrow> locals \<Rightarrow> flow \<times> event list" where
  "on_chunk a chunk s =
    (let s1 = s\<lparr>fullResponse := fullResponse s @ chunk\<rparr> in
     if firstChunk s1 then
       (case delivery a of
          Inl err \<Rightarrow>
            (Return (Some err),
             [Log (ReceivedChunk chunk), Outbound (Send chunk) (Some err) None,
              Log (ErrorSendingFirstChunk err)])
        | Inr m \<Rightarrow>
            (Continue (s1\<lparr>msg := Some m, firstChunk := False, lastUpdate := now_clock a\<rparr>),
             [Log (ReceivedChunk chunk), Outbound (Send chunk) None (Some (now_clock a))]))
     else if updateInterval < Sub (since_clock a) (lastUpdate s1) then
       (Continue (s1\<lparr>lastUpdate := now_clock a\<rparr>),
        [Log (ReceivedChunk chunk),
         Outbound (Edit (msg s1) (fullResponse s1)) (err_of (delivery a)) (Some (now_clock a))]
        @ (case delivery a of Inl err \<Rightarrow> [Log (ErrorUpdatingMessage err)] | Inr _ \<Rightarrow> []))
     else (Continue s1, [Log (ReceivedChunk chunk)]))"

definition body ::
  "(string \<Rightarrow> error + GeminiResponse) \<Rightarrow> arrival \<Rightarrow> locals \<Rightarrow> flow \<times> event list"
where
  "body unmarshal a s =
    (if line a = [] then (Continue s, [Log (RawLine (line a))])
     else
       case parseSSEResponse unmarshal (line a) of
         (Inl err, logged) \<Rightarrow>
           (Continue s, Log (RawLine (line a)) # logged @ [Log (ErrorParsingSSE err)])
       | (Inr None, logged) \<Rightarrow> (Continue s, Log (RawLine (line a)) # logged)
       | (Inr (Some geminiResp), logged) \<Rightarrow>
           (case Candidates geminiResp of
              [] \<Rightarrow> (Continue s, Log (RawLine (line a)) # logged)
            | candidate # _ \<Rightarrow>
                (case Content_Parts candidate of
                   [] \<Rightarrow> (Continue s, Log (RawLine (line a)) # logged)
                 | part # _ \<Rightarrow>
                     (let (f, evs) = on_chunk a (Text part) s
                      in (f, Log (RawLine (line a)) # logged @ evs)))))"

text \<open>
  \<open>for scanner.Scan()\<close>: the scanner hands out the lines it could read, one at a time,
  and then reports the end. The lines are a list: a body that never ends, on which the
  handler never returns, is outside this model.
\<close>

fun scan_loop ::
  "(string \<Rightarrow> error + GeminiResponse) \<Rightarrow> arrival list \<Rightarrow> locals \<Rightarrow> flow \<times> event list"
where
  "scan_loop unmarshal [] s = (Continue s, [])"
| "scan_loop unmarshal (a # rest) s =
    (case body unmarshal a s of
       (Return r, evs) \<Rightarrow> (Return r, evs)
     | (Continue s', evs) \<Rightarrow>
         (let (f, evs') = scan_loop unmarshal rest s' in (f, evs @ evs')))"

section \<open>After the loop\<close>

text \<open>
  The response of the generation endpoint: its status and its body as the scanner
  reads it. \<open>scanner.Scan()\<close> is false at the end of the body and at a failed read
  alike, and the handler never asks \<open>scanner.Err()\<close>: \<open>read_err\<close>, the error of a
  failed read, is in the model and nothing reads it.
\<close>

record response =
  StatusCode :: int
  arrivals :: "arrival list"
  read_err :: "error option"

text \<open>\<open>"\u200B"\<close>, the zero width space, in UTF-8.\<close>

definition marker :: string where
  "marker = [CHR 0xE2, CHR 0x80, CHR 0x8B]"

text \<open>
  What the environment answers after the loop: the outcome of the final \<open>b.Edit\<close>, of
  \<open>saveMessage\<close>, of the delivery of the status error message, and of the apology.
\<close>

record closing =
  final_edit :: "error option"
  save_result :: "error option"
  error_message :: "error option"
  sorry_send :: "error option"

definition log_if :: "(error \<Rightarrow> log_entry) \<Rightarrow> error option \<Rightarrow> event list" where
  "log_if entry r = (case r of Some err \<Rightarrow> [Log (entry err)] | None \<Rightarrow> [])"

text \<open>The statements after the loop.\<close>

definition finish ::
  "closing \<Rightarrow> response \<Rightarrow> int \<Rightarrow> string \<Rightarrow> locals \<Rightarrow> error option \<times> event list"
where
  "finish cl resp telegramID userMsg s =
    (if 0 < length (fullResponse s) then
       (let finalText = fullResponse s @ marker in
        (None,
         [Outbound (Edit (msg s) finalText) (final_edit cl) None]
         @ log_if ErrorSendingFinalUpdate (final_edit cl)
         @ [SaveMessage telegramID userMsg (fullResponse s) (save_result cl)]
         @ log_if ErrorSavingMessages (save_result cl)))
     else if StatusCode resp \<noteq> 200 then
       (None,
        [Log (UnexpectedStatusCode (StatusCode resp))]
        @ (case msg s of
             Some m \<Rightarrow>
               [Outbound (Edit (Some m) ''Error: API returned non-200 status code'')
                  (error_message cl) None]
           | None \<Rightarrow> [CtxSend ''Error: API returned non-200 status code'' (error_message cl)])
        @ log_if ErrorSendingErrorMessage (error_message cl))
     else if msg s = None then
       (sorry_send cl, [CtxSend ''Sorry, I couldn't generate a response'' (sorry_send cl)])
     else (None, []))"

text \<open>
  The handler from \<open>scanner := bufio.NewScanner(resp.Body)\<close> to its end: the loop, and
  the finalization unless the loop has returned.
\<close>

definition stream ::
  "(string \<Rightarrow> error + GeminiResponse) \<Rightarrow> response \<Rightarrow> closing \<Rightarrow> int \<Rightarrow> string
    \<Rightarrow> error option \<times> event list"
where
  "stream unmarshal resp cl telegramID userMsg =
    (case scan_loop unmarshal (arrivals resp) initial of
       (Return r, evs) \<Rightarrow> (r, evs)
     | (Continue s, evs) \<Rightarrow>
         (let (r, evs') = finish cl resp telegramID userMsg s in (r, evs @ evs')))"

section \<open>The history of the conversation\<close>






section \<open>The text handler\<close>







section \<open>The specification's terms\<close>

text \<open>
  The kinds of a decoded line, and the decoder and the extractor as the specification
  words them: a line without the prefix is blank, the sentinel after the prefix is the
  end of the stream, and the payload, left-trimmed, decodes or is malformed; the
  fragment of an event is the text of the first part of the first candidate, where
  there is one.
\<close>

datatype StreamEvent =
    Data GeminiResponse
  | Sentinel
  | Blank
  | Malformed string

definition spec_decode :: "(string \<Rightarrow> error + GeminiResponse) \<Rightarrow> string \<Rightarrow> StreamEvent" where
  "spec_decode unmarshal l =
    (if take 6 l \<noteq> ''data: '' then Blank
     else if drop 6 l = ''[DONE]'' then Sentinel
     else
       case unmarshal (dropWhile (\<lambda>c. c \<in> set cutset) (drop 6 l)) of
         Inl _ \<Rightarrow> Malformed (dropWhile (\<lambda>c. c \<in> set cutset) (drop 6 l))
       | Inr r \<Rightarrow> Data r)"

definition spec_extract :: "GeminiResponse \<Rightarrow> string option" where
  "spec_extract r =
    (case Candidates r of
       [] \<Rightarrow> None
     | c # _ \<Rightarrow> (case Content_Parts c of [] \<Rightarrow> None | p # _ \<Rightarrow> Some (Text p)))"

definition fragment :: "(string \<Rightarrow> error + GeminiResponse) \<Rightarrow> string \<Rightarrow> string option" where
  "fragment unmarshal l =
    (case spec_decode unmarshal l of Data r \<Rightarrow> spec_extract r | _ \<Rightarrow> None)"

text \<open>The fragments of a sequence of lines, in the order of arrival.\<close>

definition fragments :: "(string \<Rightarrow> error + GeminiResponse) \<Rightarrow> string list \<Rightarrow> string list" where
  "fragments unmarshal ls = List.map_filter (fragment unmarshal) ls"

section \<open>Reading a trace\<close>

text \<open>The outbound calls of a trace, in order.\<close>

fun calls :: "event list \<Rightarrow> call list" where
  "calls [] = []"
| "calls (Outbound c r t # es) = c # calls es"
| "calls (e # es) = calls es"

text \<open>The outbound calls with the clock reading recorded for each, in order.\<close>

fun deliveries :: "event list \<Rightarrow> (call \<times> int option) list" where
  "deliveries [] = []"
| "deliveries (Outbound c r t # es) = (c, t) # deliveries es"
| "deliveries (e # es) = deliveries es"

text \<open>What is handed to \<open>saveMessage\<close>: the user id, the user's text and the model's text.\<close>

fun saved :: "event list \<Rightarrow> (int \<times> string \<times> string) list" where
  "saved [] = []"
| "saved (SaveMessage i u m r # es) = (i, u, m) # saved es"
| "saved (e # es) = saved es"


text \<open>
  The clock reading stored for the last outbound call of a trace, where there is a
  call and it has a reading.
\<close>

definition last_time :: "event list \<Rightarrow> int option" where
  "last_time evs = (case deliveries evs of [] \<Rightarrow> None | d # ds \<Rightarrow> snd (last (d # ds)))"

text \<open>
  The first of the lines that carries a fragment, with what the environment answered
  while it was handled.
\<close>

definition first_fragment ::
  "(string \<Rightarrow> error + GeminiResponse) \<Rightarrow> arrival list \<Rightarrow> arrival option" where
  "first_fragment unmarshal xs = find (\<lambda>a. fragment unmarshal (line a) \<noteq> None) xs"

text \<open>
  An edit of the message \<open>m\<close>.
\<close>

definition is_edit_of :: "tele_Message \<Rightarrow> call \<Rightarrow> bool" where
  "is_edit_of m c = (case c of Edit h t \<Rightarrow> h = Some m | Send t \<Rightarrow> False)"

text \<open>The text that an outbound call carries.\<close>

definition text_of :: "call \<Rightarrow> string" where
  "text_of c = (case c of Send t \<Rightarrow> t | Edit m t \<Rightarrow> t)"

text \<open>
  Two deliveries are apart when both have a recorded time and the later one is more
  than the interval after the earlier one.
\<close>

definition apart :: "call \<times> int option \<Rightarrow> call \<times> int option \<Rightarrow> bool" where
  "apart d e =
    (case (snd d, snd e) of
       (Some t, Some u) \<Rightarrow> updateInterval < u - t
     | _ \<Rightarrow> False)"

text \<open>What the loop logs for a line that it skips: the line, and what the parsing logs.\<close>

definition skip_log :: "(string \<Rightarrow> error + GeminiResponse) \<Rightarrow> string \<Rightarrow> event list" where
  "skip_log um l =
    Log (RawLine l) # snd (parseSSEResponse um l)
    @ (case fst (parseSSEResponse um l) of Inl err \<Rightarrow> [Log (ErrorParsingSSE err)] | Inr _ \<Rightarrow> [])"

section \<open>Concrete runs\<close>

text \<open>
  The decoder is a parameter of the model. For the runs on concrete input below it
  is the table of what \<open>json.Unmarshal\<close> gives on the five payloads these runs use;
  their other payloads are not JSON, and fail.
\<close>

definition payload :: "string \<Rightarrow> string" where
  \<open>payload txt = ''{"candidates":[{"content":{"parts":[{"text":"'' @ txt @ ''"}]}}]}''\<close>

definition decoded :: "string \<Rightarrow> GeminiResponse" where
  "decoded txt = \<lparr>Candidates = [\<lparr>Content_Parts = [\<lparr>Text = txt\<rparr>]\<rparr>]\<rparr>"

definition sample_unmarshal :: "string \<Rightarrow> error + GeminiResponse" where
  "sample_unmarshal d =
    (if d = payload ''Hel'' then Inr (decoded ''Hel'')
     else if d = payload ''lo '' then Inr (decoded ''lo '')
     else if d = payload ''world'' then Inr (decoded ''world'')
     else if d = payload [] then Inr (decoded [])
     else if d = ''{}'' then Inr \<lparr>Candidates = []\<rparr>
     else Inl (LibError ''invalid character''))"

text \<open>A line with the clock readings around it; every outbound call succeeds, or fails.\<close>

definition arrives :: "string \<Rightarrow> int \<Rightarrow> int \<Rightarrow> arrival" where
  "arrives l t t' = \<lparr>line = l, since_clock = t, delivery = Inr (TeleMessage 7), now_clock = t'\<rparr>"

definition arrives_failing :: "string \<Rightarrow> int \<Rightarrow> int \<Rightarrow> arrival" where
  "arrives_failing l t t' =
    \<lparr>line = l, since_clock = t, delivery = Inl (LibError ''telegram: Bad Request''),
     now_clock = t'\<rparr>"

text \<open>
  Three fragments, the second 200 ms and the third 700 ms after the first, with a
  keep-alive line between them and the sentinel at the end.
\<close>

definition scenario :: "arrival list" where
  "scenario =
    [arrives (''data: '' @ payload ''Hel'') 10 20,
     arrives [] 30 30,
     arrives (''data: '' @ payload ''lo '') 200000020 200000030,
     arrives (''data: '' @ payload ''world'') 700000020 700000030,
     arrives ''data: [DONE]'' 700000040 700000040]"

text \<open>
  The edit of the second fragment, 700 ms after the first, fails; the third fragment
  comes 200 ms later.
\<close>

definition failed_edit :: "arrival list" where
  "failed_edit =
    [arrives (''data: '' @ payload ''Hel'') 10 20,
     arrives_failing (''data: '' @ payload ''lo '') 700000020 700000030,
     arrives (''data: '' @ payload ''world'') 900000020 900000030]"

text \<open>The second fragment comes exactly 500 ms after the reading stored for the first.\<close>

definition on_the_interval :: "arrival list" where
  "on_the_interval =
    [arrives (''data: '' @ payload ''Hel'') 10 20,
     arrives (''data: '' @ payload ''lo '') 500000020 500000030]"

text \<open>
  A first fragment with an empty text, which the chat service refuses, and an empty
  fragment 700 ms after a first one.
\<close>

definition empty_first :: "arrival list" where
  "empty_first = [arrives_failing (''data: '' @ payload []) 10 20]"

definition empty_later :: "arrival list" where
  "empty_later =
    [arrives (''data: '' @ payload ''Hel'') 10 20,
     arrives (''data: '' @ payload []) 700000020 700000030]"

text \<open>A fragment after the sentinel.\<close>

definition after_sentinel :: "arrival list" where
  "after_sentinel =
    [arrives ''data: [DONE]'' 10 20,
     arrives (''data: '' @ payload ''Hel'') 30 40]"


text \<open>
  A response with status 200 whose body is read to its end, and one whose connection
  drops after the first fragment.
\<close>

definition ok_response :: "arrival list \<Rightarrow> response" where
  "ok_response xs = \<lparr>StatusCode = 200, arrivals = xs, read_err = None\<rparr>"

definition dropped :: response where
  "dropped =
    \<lparr>StatusCode = 200,
     arrivals = [arrives (''data: '' @ payload ''Hel'') 10 20],
     read_err = Some (LibError ''unexpected EOF'')\<rparr>"

text \<open>
  The first fragment alone, and the first two fragments with a keep-alive line
  between them, the second 200 ms after the first.
\<close>

definition heard_one :: "arrival list" where
  "heard_one = [arrives (''data: '' @ payload ''Hel'') 10 20]"

definition heard_two :: "arrival list" where
  "heard_two =
    [arrives (''data: '' @ payload ''Hel'') 10 20,
     arrives [] 30 30,
     arrives (''data: '' @ payload ''lo '') 200000020 200000030]"

definition quiet :: closing where
  "quiet = \<lparr>final_edit = None, save_result = None, error_message = None, sorry_send = None\<rparr>"




lemmas model_defs =
  initial_def body_def parseSSEResponse_def HasPrefix_def TrimPrefix_def TrimLeft_def cutset_def
  on_chunk_def Sub_def maxDuration_def minDuration_def updateInterval_def Let_def err_of_def

lemmas run_defs =
  model_defs arrives_def arrives_failing_def sample_unmarshal_def payload_def decoded_def
  quiet_def ok_response_def scenario_def

lemmas spec_defs =
  fragments_def fragment_def spec_decode_def spec_extract_def List.map_filter_simps

section \<open>Decoding and the specification's kinds\<close>

lemma length_prefix: "length ''data: '' = 6"
  by simp

lemma HasPrefix_data: "HasPrefix l ''data: '' \<longleftrightarrow> take 6 l = ''data: ''"
  unfolding HasPrefix_def length_prefix ..

lemma TrimPrefix_data: "take 6 l = ''data: '' \<Longrightarrow> TrimPrefix l ''data: '' = drop 6 l"
  unfolding TrimPrefix_def HasPrefix_def length_prefix by simp

lemma parse_by_kind:
  "parseSSEResponse um l =
    (case spec_decode um l of
       Blank \<Rightarrow> (Inr None, [])
     | Sentinel \<Rightarrow> (Inr None, [])
     | Malformed d \<Rightarrow>
         (case um d of
            Inl err \<Rightarrow> (Inl (Wrapped ''unmarshal error'' err), [Log (RawDataCausingError d)])
          | Inr r \<Rightarrow> (Inr (Some r), []))
     | Data r \<Rightarrow> (Inr (Some r), []))"
proof (cases "take 6 l = ''data: ''")
  case False
  then show ?thesis
    by (simp add: parseSSEResponse_def spec_decode_def HasPrefix_data)
next
  case True
  then show ?thesis
    by (simp add: parseSSEResponse_def spec_decode_def HasPrefix_data TrimPrefix_data TrimLeft_def
        Let_def split: sum.splits)
qed

lemma decode_Malformed: "spec_decode um l = Malformed d \<Longrightarrow> \<exists>e. um d = Inl e"
  by (auto simp: spec_decode_def split: if_splits sum.splits)

section \<open>The loop, one line at a time\<close>

lemma scan_loop_step:
  "scan_loop um (a # xs) s =
    (case body um a s of
       (Return r, evs) \<Rightarrow> (Return r, evs)
     | (Continue s1, evs) \<Rightarrow> (fst (scan_loop um xs s1), evs @ snd (scan_loop um xs s1)))"
  by (simp add: case_prod_unfold Let_def split: flow.splits)

lemma scan_loop_Continue:
  "scan_loop um (a # xs) s = (Continue s', evs) \<longleftrightarrow>
    (\<exists>s1 evs1 evs2. body um a s = (Continue s1, evs1) \<and> scan_loop um xs s1 = (Continue s', evs2)
       \<and> evs = evs1 @ evs2)"
proof (cases "body um a s")
  case (Pair f evs1)
  show ?thesis
  proof (cases f)
    case (Return r)
    with Pair show ?thesis by (simp add: scan_loop_step del: scan_loop.simps)
  next
    case (Continue s1)
    with Pair show ?thesis
      by (cases "scan_loop um xs s1") (auto simp add: scan_loop_step simp del: scan_loop.simps)
  qed
qed

lemma scan_loop_single: "scan_loop um [a] s = body um a s"
  by (cases "body um a s") (auto simp: scan_loop_step split: flow.splits simp del: scan_loop.simps(2))

lemma scan_loop_append:
  "scan_loop um (xs @ ys) s =
    (case scan_loop um xs s of
       (Return r, evs) \<Rightarrow> (Return r, evs)
     | (Continue s', evs) \<Rightarrow> (fst (scan_loop um ys s'), evs @ snd (scan_loop um ys s')))"
proof (induction xs arbitrary: s)
  case Nil
  show ?case by simp
next
  case (Cons a xs)
  show ?case
  proof (cases "fst (body um a s)")
    case (Return r)
    then show ?thesis
      by (simp add: scan_loop_step case_prod_unfold del: scan_loop.simps)
  next
    case (Continue s1)
    with Cons.IH[of s1] show ?thesis
      by (simp add: scan_loop_step case_prod_unfold split: flow.splits del: scan_loop.simps)
  qed
qed

lemma scan_loop_snoc:
  assumes "scan_loop um pre s0 = (Continue s, evs)"
  shows "scan_loop um (pre @ [a]) s0 = (fst (body um a s), evs @ snd (body um a s))"
  using assms by (simp add: scan_loop_append scan_loop_single del: scan_loop.simps)

lemma scan_loop_snoc_Continue:
  assumes "scan_loop um (xs @ [x]) s0 = (Continue s, evs)"
  obtains s1 evs0 evs1 where "scan_loop um xs s0 = (Continue s1, evs0)"
    and "body um x s1 = (Continue s, evs1)" and "evs = evs0 @ evs1"
proof (cases "scan_loop um xs s0")
  case (Pair f evs0)
  show ?thesis
  proof (cases f)
    case (Return r)
    with Pair assms show ?thesis
      by (simp add: scan_loop_append del: scan_loop.simps)
  next
    case (Continue s1)
    with Pair have "scan_loop um (xs @ [x]) s0 =
        (fst (body um x s1), evs0 @ snd (body um x s1))"
      by (simp add: scan_loop_snoc)
    with assms have "body um x s1 = (Continue s, snd (body um x s1))"
      and "evs = evs0 @ snd (body um x s1)"
      by (simp_all add: prod_eq_iff)
    with Pair Continue that show ?thesis
      by blast
  qed
qed

section \<open>What one pass of the loop does\<close>

lemma calls_append: "calls (xs @ ys) = calls xs @ calls ys"
  by (induction xs rule: calls.induct) simp_all

lemma deliveries_append: "deliveries (xs @ ys) = deliveries xs @ deliveries ys"
  by (induction xs rule: deliveries.induct) simp_all

lemma saved_append: "saved (xs @ ys) = saved xs @ saved ys"
  by (induction xs rule: saved.induct) simp_all

lemma Sub_interval: "updateInterval < Sub t u \<longleftrightarrow> updateInterval < t - u"
  by (simp add: Sub_def Let_def updateInterval_def maxDuration_def minDuration_def)

lemma parse_calls: "calls (snd (parseSSEResponse um l)) = []"
  by (simp add: parse_by_kind split: StreamEvent.splits sum.splits)

lemma parse_deliveries: "deliveries (snd (parseSSEResponse um l)) = []"
  by (simp add: parse_by_kind split: StreamEvent.splits sum.splits)

lemma parse_saved: "saved (snd (parseSSEResponse um l)) = []"
  by (simp add: parse_by_kind split: StreamEvent.splits sum.splits)

lemma body_by_fragment:
  "body um a s =
    (case fragment um (line a) of
       None \<Rightarrow> (Continue s, skip_log um (line a))
     | Some chunk \<Rightarrow>
         (fst (on_chunk a chunk s),
          Log (RawLine (line a)) # snd (on_chunk a chunk s)))"
proof (cases "line a = []")
  case True
  then show ?thesis
    by (simp add: body_def fragment_def skip_log_def spec_decode_def parseSSEResponse_def HasPrefix_def)
next
  case False
  show ?thesis
  proof (cases "spec_decode um (line a)")
    case (Data r)
    with False show ?thesis
      by (simp add: body_def parse_by_kind fragment_def skip_log_def spec_extract_def
          case_prod_unfold Let_def split: list.splits)
  next
    case Sentinel
    with False show ?thesis
      by (simp add: body_def parse_by_kind fragment_def skip_log_def)
  next
    case Blank
    with False show ?thesis
      by (simp add: body_def parse_by_kind fragment_def skip_log_def)
  next
    case (Malformed d)
    with False decode_Malformed[OF Malformed] show ?thesis
      by (auto simp: body_def parse_by_kind fragment_def skip_log_def)
  qed
qed

lemma skip_log_calls: "calls (skip_log um l) = []"
  by (simp add: skip_log_def calls_append parse_calls split: sum.splits)

lemma skip_log_deliveries: "deliveries (skip_log um l) = []"
  by (simp add: skip_log_def deliveries_append parse_deliveries split: sum.splits)

lemma skip_log_saved: "saved (skip_log um l) = []"
  by (simp add: skip_log_def saved_append parse_saved split: sum.splits)

lemma on_chunk_deliveries:
  "deliveries (snd (on_chunk a chunk s)) =
    (if firstChunk s then
       (case delivery a of
          Inl _ \<Rightarrow> [(Send chunk, None)]
        | Inr _ \<Rightarrow> [(Send chunk, Some (now_clock a))])
     else if updateInterval < since_clock a - lastUpdate s then
       [(Edit (msg s) (fullResponse s @ chunk), Some (now_clock a))]
     else [])"
  by (simp add: on_chunk_def Let_def Sub_interval split: sum.splits)

lemma on_chunk_flow:
  "fst (on_chunk a chunk s) =
    (if firstChunk s then
       (case delivery a of
          Inl err \<Rightarrow> Return (Some err)
        | Inr m \<Rightarrow>
            Continue \<lparr>fullResponse = fullResponse s @ chunk, msg = Some m,
                       lastUpdate = now_clock a, firstChunk = False\<rparr>)
     else if updateInterval < since_clock a - lastUpdate s then
       Continue (s\<lparr>fullResponse := fullResponse s @ chunk, lastUpdate := now_clock a\<rparr>)
     else Continue (s\<lparr>fullResponse := fullResponse s @ chunk\<rparr>))"
  by (simp add: on_chunk_def Let_def Sub_interval split: sum.splits)

lemma on_chunk_calls:
  "calls (snd (on_chunk a chunk s)) =
    (if firstChunk s then [Send chunk]
     else if updateInterval < since_clock a - lastUpdate s then
       [Edit (msg s) (fullResponse s @ chunk)]
     else [])"
  by (simp add: on_chunk_def Let_def Sub_interval split: sum.splits)

lemma log_if_calls: "calls (log_if f r) = []"
  by (simp add: log_if_def split: option.splits)

lemma log_if_saved: "saved (log_if f r) = []"
  by (simp add: log_if_def split: option.splits)

lemma on_chunk_saved: "saved (snd (on_chunk a chunk s)) = []"
  by (simp add: on_chunk_def Let_def split: sum.splits)

lemma body_saved: "saved (snd (body um a s)) = []"
  by (cases "fragment um (line a)") (simp_all add: body_by_fragment skip_log_saved on_chunk_saved)

lemma scan_loop_saved: "saved (snd (scan_loop um xs s)) = []"
proof (induction xs arbitrary: s)
  case Nil
  show ?case by simp
next
  case (Cons a xs)
  show ?case
  proof (cases "fst (body um a s)")
    case (Continue s1)
    with Cons.IH[of s1] body_saved[of um a s] show ?thesis
      by (simp add: scan_loop_step case_prod_unfold saved_append del: scan_loop.simps)
  next
    case (Return r)
    with body_saved[of um a s] show ?thesis
      by (simp add: scan_loop_step case_prod_unfold del: scan_loop.simps)
  qed
qed

lemma finish_nonempty:
  assumes "fullResponse s \<noteq> []"
  shows "finish cl resp tid userMsg s =
    (None,
     Outbound (Edit (msg s) (fullResponse s @ marker)) (final_edit cl) None
     # log_if ErrorSendingFinalUpdate (final_edit cl)
     @ SaveMessage tid userMsg (fullResponse s) (save_result cl)
     # log_if ErrorSavingMessages (save_result cl))"
  using assms by (simp add: finish_def Let_def)

lemma stream_finishes:
  assumes "scan_loop um (arrivals resp) initial = (Continue s, evs)"
  shows "stream um resp cl tid userMsg =
    (fst (finish cl resp tid userMsg s), evs @ snd (finish cl resp tid userMsg s))"
  using assms by (simp add: stream_def case_prod_unfold Let_def)

lemma fragments_None: "fragment um l = None \<Longrightarrow> fragments um (l # ls) = fragments um ls"
  by (simp add: fragments_def List.map_filter_simps)

lemma fragments_Some: "fragment um l = Some t \<Longrightarrow> fragments um (l # ls) = t # fragments um ls"
  by (simp add: fragments_def List.map_filter_simps)

section \<open>The accumulated text\<close>

lemma on_chunk_accumulates:
  "on_chunk a chunk s = (Continue s', evs) \<Longrightarrow> fullResponse s' = fullResponse s @ chunk"
  by (auto simp: on_chunk_def Let_def split: if_splits sum.splits)

lemma body_accumulates:
  assumes "body um a s = (Continue s', evs)"
  shows "fullResponse s' = fullResponse s @ concat (fragments um [line a])"
proof (cases "line a = []")
  case True
  with assms show ?thesis
    by (simp add: body_def fragments_def fragment_def spec_decode_def List.map_filter_simps)
next
  case False
  show ?thesis
  proof (cases "spec_decode um (line a)")
    case (Data r)
    with assms False show ?thesis
      by (auto simp: body_def parse_by_kind fragments_def fragment_def List.map_filter_simps
          spec_extract_def dest: on_chunk_accumulates split: list.splits prod.splits)
  next
    case Sentinel
    with assms False show ?thesis
      by (simp add: body_def parse_by_kind fragments_def fragment_def List.map_filter_simps)
  next
    case Blank
    with assms False show ?thesis
      by (simp add: body_def parse_by_kind fragments_def fragment_def List.map_filter_simps)
  next
    case (Malformed d)
    with assms False decode_Malformed[OF Malformed] show ?thesis
      by (auto simp: body_def parse_by_kind fragments_def fragment_def List.map_filter_simps)
  qed
qed

lemma fragments_Cons: "fragments um (l # ls) = fragments um [l] @ fragments um ls"
  by (simp add: fragments_def List.map_filter_simps split: option.splits)

lemma scan_loop_accumulates:
  "scan_loop um xs s = (Continue s', evs) \<Longrightarrow>
   fullResponse s' = fullResponse s @ concat (fragments um (map line xs))"
proof (induction xs arbitrary: s evs)
  case Nil
  then show ?case by (simp add: fragments_def List.map_filter_simps)
next
  case (Cons a xs)
  from Cons.prems obtain s1 evs1 evs2 where
    b: "body um a s = (Continue s1, evs1)" and l: "scan_loop um xs s1 = (Continue s', evs2)"
    unfolding scan_loop_Continue by blast
  from Cons.IH[OF l] body_accumulates[OF b] show ?case
    by (simp add: fragments_Cons[of um "line a" "map line xs"])
qed

text \<open>
  C1. Whenever the loop has read all the lines and the handler goes on to the
  finalization, the accumulated text is the concatenation, in the order of arrival, of
  the fragments of the lines read: the text of the first part of the first candidate
  of every line that decodes. The clock readings and the outcomes of the outbound
  calls are arbitrary, so what the throttle displayed makes no difference.
\<close>

theorem accumulated_is_concatenation:
  assumes "scan_loop unmarshal xs initial = (Continue s, evs)"
  shows "fullResponse s = concat (fragments unmarshal (map line xs))"
  using scan_loop_accumulates[OF assms] by (simp add: initial_def)

theorem accumulated_is_concatenation_witness:
  "scan_loop sample_unmarshal scenario initial =
     (Continue \<lparr>fullResponse = ''Hello world'', msg = Some (TeleMessage 7),
                 lastUpdate = 700000030, firstChunk = False\<rparr>,
      snd (scan_loop sample_unmarshal scenario initial))
   \<and> ''Hello world'' = concat (fragments sample_unmarshal (map line scenario))"
proof -
  have "fst (scan_loop sample_unmarshal scenario initial) =
    Continue \<lparr>fullResponse = ''Hello world'', msg = Some (TeleMessage 7),
               lastUpdate = 700000030, firstChunk = False\<rparr>"
    by (simp add: run_defs)
  then have h: "scan_loop sample_unmarshal scenario initial =
     (Continue \<lparr>fullResponse = ''Hello world'', msg = Some (TeleMessage 7),
                 lastUpdate = 700000030, firstChunk = False\<rparr>,
      snd (scan_loop sample_unmarshal scenario initial))"
    by (simp add: prod_eq_iff)
  from accumulated_is_concatenation[OF h] h show ?thesis
    by simp
qed

section \<open>The throttle\<close>

lemma body_gap:
  assumes "since_clock a \<le> now_clock a"
  shows "(deliveries (snd (body um a s)) = []
           \<and> (\<exists>s'. fst (body um a s) = Continue s' \<and> firstChunk s' = firstChunk s
                 \<and> lastUpdate s' = lastUpdate s))
       \<or> (\<exists>c r. deliveries (snd (body um a s)) = [(c, None)] \<and> fst (body um a s) = Return r
             \<and> firstChunk s)
       \<or> (\<exists>c s'. deliveries (snd (body um a s)) = [(c, Some (lastUpdate s'))]
             \<and> fst (body um a s) = Continue s' \<and> \<not> firstChunk s'
             \<and> (\<not> firstChunk s \<longrightarrow> updateInterval < lastUpdate s' - lastUpdate s))"
proof (cases "fragment um (line a)")
  case None
  then show ?thesis
    by (simp add: body_by_fragment skip_log_deliveries)
next
  case (Some chunk)
  with assms show ?thesis
    by (auto simp: body_by_fragment on_chunk_deliveries on_chunk_flow split: sum.splits)
qed

lemma scan_loop_gap:
  assumes "\<forall>a\<in>set xs. since_clock a \<le> now_clock a"
  shows "sorted_wrt apart (deliveries (snd (scan_loop um xs s)))
       \<and> (\<not> firstChunk s \<longrightarrow>
            (\<forall>d\<in>set (deliveries (snd (scan_loop um xs s))).
               \<exists>t. snd d = Some t \<and> updateInterval < t - lastUpdate s))"
  using assms
proof (induction xs arbitrary: s)
  case Nil
  then show ?case by simp
next
  case (Cons a xs)
  then have mono: "since_clock a \<le> now_clock a" and rest: "\<forall>a\<in>set xs. since_clock a \<le> now_clock a"
    by simp_all
  note IH = Cons.IH[OF rest]
  have pos: "0 < updateInterval"
    by (simp add: updateInterval_def)
  from body_gap[OF mono, of um s] show ?case
  proof (elim disjE exE conjE)
    fix s'
    assume "deliveries (snd (body um a s)) = []" "fst (body um a s) = Continue s'"
      "firstChunk s' = firstChunk s" "lastUpdate s' = lastUpdate s"
    with IH[of s'] show ?thesis
      by (simp add: scan_loop_step case_prod_unfold deliveries_append del: scan_loop.simps)
  next
    fix c r
    assume "deliveries (snd (body um a s)) = [(c, None)]" "fst (body um a s) = Return r"
      "firstChunk s"
    then show ?thesis
      by (simp add: scan_loop_step case_prod_unfold del: scan_loop.simps)
  next
    fix c s'
    assume d: "deliveries (snd (body um a s)) = [(c, Some (lastUpdate s'))]"
      and f: "fst (body um a s) = Continue s'" and n: "\<not> firstChunk s'"
      and g: "\<not> firstChunk s \<longrightarrow> updateInterval < lastUpdate s' - lastUpdate s"
    from IH[of s'] n have
      s: "sorted_wrt apart (deliveries (snd (scan_loop um xs s')))" and
      a: "\<forall>d\<in>set (deliveries (snd (scan_loop um xs s'))).
               \<exists>t. snd d = Some t \<and> updateInterval < t - lastUpdate s'"
      by simp_all
    from a have "\<forall>d\<in>set (deliveries (snd (scan_loop um xs s'))). apart (c, Some (lastUpdate s')) d"
      by (auto simp: apart_def)
    moreover from a g pos have "\<not> firstChunk s \<longrightarrow>
       (\<forall>d\<in>set (deliveries (snd (scan_loop um xs s'))). \<exists>t. snd d = Some t \<and> updateInterval < t - lastUpdate s)"
      by fastforce
    ultimately show ?thesis
      using d f s g
      by (simp add: scan_loop_step case_prod_unfold deliveries_append del: scan_loop.simps)
  qed
qed

text \<open>
  C7. With a clock that does not go back while a line is handled, any two outbound
  calls of the loop are apart: each has the reading that the handler stored in
  \<open>lastUpdate\<close> after it, and the later reading is more than the interval of 500 ms
  after the earlier one. The outcomes of the calls are arbitrary: the reading is
  stored after a failed edit too. The final edit is made after the loop, without
  looking at the clock, and is not among these calls.
\<close>

theorem deliveries_apart:
  assumes "\<forall>a\<in>set xs. since_clock a \<le> now_clock a"
  shows "sorted_wrt apart (deliveries (snd (scan_loop unmarshal xs initial)))"
  using scan_loop_gap[OF assms] by blast

theorem deliveries_apart_witness:
  "list_all (\<lambda>a. since_clock a \<le> now_clock a) failed_edit
   \<and> deliveries (snd (scan_loop sample_unmarshal failed_edit initial)) =
       [(Send ''Hel'', Some 20), (Edit (Some (TeleMessage 7)) ''Hello '', Some 700000030)]
   \<and> sorted_wrt apart (deliveries (snd (scan_loop sample_unmarshal failed_edit initial)))"
proof -
  have h: "\<forall>a\<in>set failed_edit. since_clock a \<le> now_clock a"
    by (simp add: failed_edit_def arrives_def arrives_failing_def)
  have "deliveries (snd (scan_loop sample_unmarshal failed_edit initial)) =
       [(Send ''Hel'', Some 20), (Edit (Some (TeleMessage 7)) ''Hello '', Some 700000030)]"
    by (simp add: failed_edit_def run_defs)
  with h deliveries_apart[OF h, of sample_unmarshal] show ?thesis
    by (simp add: list_all_iff)
qed

subsection \<open>The state of the loop after the lines read so far\<close>

lemma first_fragment_snoc:
  "first_fragment um (xs @ [x]) =
    (case first_fragment um xs of
       Some a \<Rightarrow> Some a
     | None \<Rightarrow> if fragment um (line x) \<noteq> None then Some x else None)"
  by (induction xs) (simp_all add: first_fragment_def)

lemma last_time_last:
  "last_time evs = (if deliveries evs = [] then None else snd (last (deliveries evs)))"
  by (simp add: last_time_def split: list.splits)

lemma last_time_append_quiet: "deliveries evs1 = [] \<Longrightarrow> last_time (evs0 @ evs1) = last_time evs0"
  by (simp add: last_time_last deliveries_append)

lemma last_time_append_one:
  "deliveries evs1 = [(c, t)] \<Longrightarrow> last_time (evs0 @ evs1) = t"
  by (simp add: last_time_last deliveries_append)

lemma is_edit_of_Edit: "is_edit_of m (Edit (Some m) t)"
  by (simp add: is_edit_of_def)

lemma run_invariant:
  assumes "scan_loop um pre initial = (Continue s, evs)"
  shows "(first_fragment um pre = None \<longrightarrow> firstChunk s \<and> calls evs = [] \<and> deliveries evs = [])
    \<and> (\<forall>a0. first_fragment um pre = Some a0 \<longrightarrow>
          \<not> firstChunk s \<and> last_time evs = Some (lastUpdate s)
          \<and> (\<exists>m chunk0 edits. delivery a0 = Inr m \<and> msg s = Some m
                \<and> fragment um (line a0) = Some chunk0
                \<and> calls evs = Send chunk0 # edits \<and> list_all (is_edit_of m) edits))"
  using assms
proof (induction pre arbitrary: s evs rule: rev_induct)
  case Nil
  then show ?case
    by (auto simp: first_fragment_def initial_def)
next
  case (snoc x xs)
  from snoc.prems obtain s1 evs0 evs1 where
    run: "scan_loop um xs initial = (Continue s1, evs0)"
    and b: "body um x s1 = (Continue s, evs1)" and e: "evs = evs0 @ evs1"
    by (rule scan_loop_snoc_Continue)
  note IH = snoc.IH[OF run]
  show ?case
  proof (cases "fragment um (line x)")
    case None
    with b have "s = s1" "deliveries evs1 = []" "calls evs1 = []"
      by (auto simp: body_by_fragment skip_log_deliveries skip_log_calls)
    with IH None e show ?thesis
      by (simp add: first_fragment_snoc calls_append deliveries_append last_time_append_quiet
          split: option.splits)
  next
    case (Some chunk)
    with b have oc: "on_chunk x chunk s1 = (Continue s, snd (on_chunk x chunk s1))"
      and e1: "evs1 = Log (RawLine (line x)) # snd (on_chunk x chunk s1)"
      by (simp_all add: body_by_fragment prod_eq_iff)
    from oc have f: "fst (on_chunk x chunk s1) = Continue s"
      by (metis fst_conv)
    show ?thesis
    proof (cases "first_fragment um xs")
      case None
      with IH have fc: "firstChunk s1" and c0: "calls evs0 = []"
        by simp_all
      from f fc obtain m where m: "delivery x = Inr m" and
        s: "s = \<lparr>fullResponse = fullResponse s1 @ chunk, msg = Some m,
                lastUpdate = now_clock x, firstChunk = False\<rparr>"
        by (auto simp: on_chunk_flow split: sum.splits)
      from fc m have d: "deliveries evs1 = [(Send chunk, Some (now_clock x))]"
        and c: "calls evs1 = [Send chunk]"
        by (simp_all add: e1 on_chunk_deliveries on_chunk_calls)
      from None Some have ff: "first_fragment um (xs @ [x]) = Some x"
        by (simp add: first_fragment_snoc)
      from ff m s d c c0 Some e show ?thesis
        by (simp add: calls_append last_time_append_one)
    next
      case (Some a0)
      with IH obtain m chunk0 edits where
        nf: "\<not> firstChunk s1" and lt: "last_time evs0 = Some (lastUpdate s1)"
        and m: "delivery a0 = Inr m" "msg s1 = Some m" "fragment um (line a0) = Some chunk0"
        and c0: "calls evs0 = Send chunk0 # edits" "list_all (is_edit_of m) edits"
        by auto
      from Some have ff: "first_fragment um (xs @ [x]) = Some a0"
        by (simp add: first_fragment_snoc)
      show ?thesis
      proof (cases "updateInterval < since_clock x - lastUpdate s1")
        case True
        with f nf have s: "s = s1\<lparr>fullResponse := fullResponse s1 @ chunk, lastUpdate := now_clock x\<rparr>"
          by (simp add: on_chunk_flow)
        from True nf have "deliveries evs1 = [(Edit (msg s1) (fullResponse s1 @ chunk), Some (now_clock x))]"
          and "calls evs1 = [Edit (msg s1) (fullResponse s1 @ chunk)]"
          by (simp_all add: e1 on_chunk_deliveries on_chunk_calls)
        with ff s m c0 e nf show ?thesis
          by (simp add: calls_append last_time_append_one is_edit_of_Edit)
      next
        case False
        with f nf have s: "s = s1\<lparr>fullResponse := fullResponse s1 @ chunk\<rparr>"
          by (simp add: on_chunk_flow)
        from False nf have "deliveries evs1 = []" and "calls evs1 = []"
          by (simp_all add: e1 on_chunk_deliveries on_chunk_calls)
        with ff s m c0 e lt nf show ?thesis
          by (simp add: calls_append last_time_append_quiet)
      qed
    qed
  qed
qed

lemma fragments_Nil: "fragments um [] = []"
  by (simp add: fragments_def List.map_filter_simps)

lemma fragments_append: "fragments um (xs @ ys) = fragments um xs @ fragments um ys"
  by (induction xs) (simp_all add: fragments_def List.map_filter_simps split: option.splits)

lemma run_decision:
  assumes run: "scan_loop um pre initial = (Continue s, evs)"
    and frag: "fragment um (line a) = Some chunk"
  shows "calls (snd (scan_loop um (pre @ [a]) initial)) =
      calls evs @
      (if firstChunk s then [Send chunk]
       else if updateInterval < since_clock a - lastUpdate s then
         [Edit (msg s) (concat (fragments um (map line (pre @ [a]))))]
       else [])"
proof -
  from scan_loop_accumulates[OF run] frag
  have "fullResponse s @ chunk = concat (fragments um (map line (pre @ [a])))"
    by (simp add: initial_def fragments_append fragments_Some fragments_Nil)
  with frag show ?thesis
    by (simp add: scan_loop_snoc[OF run] calls_append body_by_fragment on_chunk_calls
        del: scan_loop.simps)
qed

text \<open>
  C5, as the code has it. The loop has read the lines \<open>pre\<close> and goes on with a
  line that carries a fragment, empty or not. When no line before carried a
  fragment, no call has been made so far and the fragment is sent as a new message.
  When a line before carried one, the calls so far are the sending of that first
  fragment, which succeeded, followed by edits of the message that it returned:
  nowhere else is a message created. The last of these calls has a stored reading,
  and the message is edited to the whole accumulated text, this fragment included,
  exactly when the clock read for this line is strictly more than 500 ms
  (500000000 ns) after that reading; otherwise the line leads to no call.
\<close>

theorem throttle_decision:
  assumes "scan_loop unmarshal pre initial = (Continue s, evs)"
    and "fragment unmarshal (line a) = Some chunk"
  shows "(first_fragment unmarshal pre = None \<longrightarrow>
            calls evs = []
            \<and> calls (snd (scan_loop unmarshal (pre @ [a]) initial)) = [Send chunk])
       \<and> (first_fragment unmarshal pre = Some a0 \<longrightarrow>
            (\<exists>m chunk0 edits t.
               delivery a0 = Inr m \<and> fragment unmarshal (line a0) = Some chunk0
               \<and> calls evs = Send chunk0 # edits \<and> list_all (is_edit_of m) edits
               \<and> last_time evs = Some t
               \<and> calls (snd (scan_loop unmarshal (pre @ [a]) initial)) =
                   calls evs @
                   (if 500000000 < since_clock a - t
                    then [Edit (Some m) (concat (fragments unmarshal (map line (pre @ [a]))))]
                    else [])))"
proof (intro conjI impI)
  assume "first_fragment unmarshal pre = None"
  with run_invariant[OF assms(1)] have "firstChunk s" "calls evs = []"
    by simp_all
  with run_decision[OF assms] show "calls evs = []"
    and "calls (snd (scan_loop unmarshal (pre @ [a]) initial)) = [Send chunk]"
    by simp_all
next
  assume "first_fragment unmarshal pre = Some a0"
  with run_invariant[OF assms(1)] obtain m chunk0 edits where
    "\<not> firstChunk s" "last_time evs = Some (lastUpdate s)" "delivery a0 = Inr m"
    "msg s = Some m" "fragment unmarshal (line a0) = Some chunk0"
    "calls evs = Send chunk0 # edits" "list_all (is_edit_of m) edits"
    by auto
  with run_decision[OF assms] show "\<exists>m chunk0 edits t.
               delivery a0 = Inr m \<and> fragment unmarshal (line a0) = Some chunk0
               \<and> calls evs = Send chunk0 # edits \<and> list_all (is_edit_of m) edits
               \<and> last_time evs = Some t
               \<and> calls (snd (scan_loop unmarshal (pre @ [a]) initial)) =
                   calls evs @
                   (if 500000000 < since_clock a - t
                    then [Edit (Some m) (concat (fragments unmarshal (map line (pre @ [a]))))]
                    else [])"
    by (simp add: updateInterval_def)
qed

theorem throttle_decision_witness:
  "first_fragment sample_unmarshal [arrives '': keep-alive'' 5 5] = None
   \<and> calls (snd (scan_loop sample_unmarshal
        ([arrives '': keep-alive'' 5 5] @ [arrives (''data: '' @ payload ''Hel'') 10 20]) initial))
      = [Send ''Hel'']
   \<and> first_fragment sample_unmarshal heard_two = Some (arrives (''data: '' @ payload ''Hel'') 10 20)
   \<and> last_time (snd (scan_loop sample_unmarshal heard_two initial)) = Some 20
   \<and> calls (snd (scan_loop sample_unmarshal
        (heard_two @ [arrives (''data: '' @ payload ''world'') 700000020 700000030]) initial))
      = [Send ''Hel'', Edit (Some (TeleMessage 7)) ''Hello world'']"
proof -
  let ?k = "arrives '': keep-alive'' 5 5"
  let ?h = "arrives (''data: '' @ payload ''Hel'') 10 20"
  let ?w = "arrives (''data: '' @ payload ''world'') 700000020 700000030"
  have r1: "scan_loop sample_unmarshal [?k] initial =
      (Continue initial, snd (scan_loop sample_unmarshal [?k] initial))"
    by (simp add: prod_eq_iff run_defs)
  have f1: "fragment sample_unmarshal (line ?h) = Some ''Hel''"
    by (simp add: run_defs spec_defs)
  have n1: "first_fragment sample_unmarshal [?k] = None"
    by (simp add: first_fragment_def run_defs spec_defs)
  have r2: "scan_loop sample_unmarshal heard_two initial =
      (Continue \<lparr>fullResponse = ''Hello '', msg = Some (TeleMessage 7), lastUpdate = 20,
                 firstChunk = False\<rparr>,
       snd (scan_loop sample_unmarshal heard_two initial))"
    by (simp add: prod_eq_iff heard_two_def run_defs)
  have f2: "fragment sample_unmarshal (line ?w) = Some ''world''"
    by (simp add: run_defs spec_defs)
  have n2: "first_fragment sample_unmarshal heard_two = Some ?h"
    by (simp add: first_fragment_def heard_two_def run_defs spec_defs)
  have c2: "calls (snd (scan_loop sample_unmarshal heard_two initial)) = [Send ''Hel'']"
    and t2: "last_time (snd (scan_loop sample_unmarshal heard_two initial)) = Some 20"
    by (simp_all add: last_time_def heard_two_def run_defs)
  have g2: "concat (fragments sample_unmarshal (map line (heard_two @ [?w]))) = ''Hello world''"
    by (simp add: heard_two_def run_defs spec_defs)
  have d2: "delivery ?h = Inr (TeleMessage 7)" "since_clock ?w = 700000020"
    by (simp_all add: arrives_def)
  from throttle_decision[OF r1 f1, of ?h] n1
  have 1: "calls (snd (scan_loop sample_unmarshal ([?k] @ [?h]) initial)) = [Send ''Hel'']"
    by simp
  from throttle_decision[OF r2 f2, of ?h] n2 c2 t2 g2 d2
  have 2: "calls (snd (scan_loop sample_unmarshal (heard_two @ [?w]) initial))
      = [Send ''Hel'', Edit (Some (TeleMessage 7)) ''Hello world'']"
    by auto
  from n1 1 n2 t2 2 show ?thesis
    by blast
qed

text \<open>
  The claim as stated has an edit when the elapsed time equals the interval. In this
  run the second fragment is read exactly 500 ms after the reading stored for the
  first, and the only call is the sending of the first fragment.
\<close>

theorem edit_at_the_interval_counterexample:
  "since_clock (on_the_interval ! 1) - now_clock (on_the_interval ! 0) = 500 * 1000000
   \<and> calls (snd (scan_loop sample_unmarshal on_the_interval initial)) = [Send ''Hel'']"
  by (simp add: on_the_interval_def run_defs)

text \<open>
  C6, as the code has it. The fragment's text is not tested for emptiness. After
  the lines \<open>pre\<close>, a further line adds no outbound call exactly when it carries no
  fragment (a blank line, the sentinel, a malformed payload, a response without
  candidate or without part), or when a line before carried a fragment and at most
  500 ms have passed since the reading stored for the last call. A line without
  fragment leaves the handler's variables as they are and is only logged. A fragment
  with an empty text is sent as a new message when it is the first fragment of the
  run, and otherwise leads to an edit, with the text accumulated so far, when more
  than 500 ms have passed.
\<close>

theorem no_call_iff:
  assumes "scan_loop unmarshal pre initial = (Continue s, evs)"
  shows "(calls (snd (scan_loop unmarshal (pre @ [a]) initial)) = calls evs \<longleftrightarrow>
            fragment unmarshal (line a) = None
            \<or> (first_fragment unmarshal pre \<noteq> None
               \<and> (\<exists>t. last_time evs = Some t \<and> since_clock a - t \<le> 500000000)))
       \<and> (fragment unmarshal (line a) = None \<longrightarrow>
            scan_loop unmarshal (pre @ [a]) initial =
              (Continue s, evs @ skip_log unmarshal (line a)))
       \<and> (fragment unmarshal (line a) = Some [] \<and> first_fragment unmarshal pre = None \<longrightarrow>
            calls (snd (scan_loop unmarshal (pre @ [a]) initial)) = [Send []])
       \<and> (fragment unmarshal (line a) = Some [] \<and> first_fragment unmarshal pre = Some a0 \<longrightarrow>
            (\<exists>m t. delivery a0 = Inr m \<and> last_time evs = Some t
               \<and> calls (snd (scan_loop unmarshal (pre @ [a]) initial)) =
                   calls evs @
                   (if 500000000 < since_clock a - t
                    then [Edit (Some m) (concat (fragments unmarshal (map line pre)))]
                    else [])))"
proof (intro conjI impI)
  show "calls (snd (scan_loop unmarshal (pre @ [a]) initial)) = calls evs \<longleftrightarrow>
            fragment unmarshal (line a) = None
            \<or> (first_fragment unmarshal pre \<noteq> None
               \<and> (\<exists>t. last_time evs = Some t \<and> since_clock a - t \<le> 500000000))"
  proof (cases "fragment unmarshal (line a)")
    case None
    then show ?thesis
      by (simp add: scan_loop_snoc[OF assms] calls_append body_by_fragment skip_log_calls
          del: scan_loop.simps)
  next
    case (Some chunk)
    show ?thesis
    proof (cases "first_fragment unmarshal pre")
      case None
      with run_invariant[OF assms] have "firstChunk s"
        by simp
      with run_decision[OF assms Some] Some None show ?thesis
        by simp
    next
      case (Some a0)
      with run_invariant[OF assms] have "\<not> firstChunk s" "last_time evs = Some (lastUpdate s)"
        by simp_all
      with run_decision[OF assms \<open>fragment unmarshal (line a) = Some chunk\<close>] Some
        \<open>fragment unmarshal (line a) = Some chunk\<close>
      show ?thesis
        by (auto simp: updateInterval_def)
    qed
  qed
next
  assume "fragment unmarshal (line a) = None"
  then show "scan_loop unmarshal (pre @ [a]) initial =
              (Continue s, evs @ skip_log unmarshal (line a))"
    by (simp add: scan_loop_snoc[OF assms] body_by_fragment del: scan_loop.simps)
next
  assume h: "fragment unmarshal (line a) = Some [] \<and> first_fragment unmarshal pre = None"
  with run_invariant[OF assms] have "firstChunk s" "calls evs = []"
    by simp_all
  with run_decision[OF assms, of a "[]"] h
  show "calls (snd (scan_loop unmarshal (pre @ [a]) initial)) = [Send []]"
    by simp
next
  assume h: "fragment unmarshal (line a) = Some [] \<and> first_fragment unmarshal pre = Some a0"
  with run_invariant[OF assms] obtain m where
    "\<not> firstChunk s" "last_time evs = Some (lastUpdate s)" "delivery a0 = Inr m" "msg s = Some m"
    by auto
  moreover from h have "fragments unmarshal (map line (pre @ [a])) = fragments unmarshal (map line pre) @ [[]]"
    by (simp add: fragments_append fragments_Some fragments_Nil)
  ultimately show "\<exists>m t. delivery a0 = Inr m \<and> last_time evs = Some t
               \<and> calls (snd (scan_loop unmarshal (pre @ [a]) initial)) =
                   calls evs @
                   (if 500000000 < since_clock a - t
                    then [Edit (Some m) (concat (fragments unmarshal (map line pre)))]
                    else [])"
    using run_decision[OF assms, of a "[]"] h
    by (simp add: updateInterval_def)
qed

theorem no_call_iff_witness:
  "calls (snd (scan_loop sample_unmarshal
       (heard_one @ [arrives (''data: '' @ payload []) 700000020 700000030]) initial))
     = [Send ''Hel'', Edit (Some (TeleMessage 7)) ''Hel'']
   \<and> calls (snd (scan_loop sample_unmarshal
       (heard_one @ [arrives (''data: '' @ payload ''lo '') 200000020 200000030]) initial))
     = [Send ''Hel'']
   \<and> fst (scan_loop sample_unmarshal (heard_one @ [arrives '': keep-alive'' 30 30]) initial)
     = Continue \<lparr>fullResponse = ''Hel'', msg = Some (TeleMessage 7), lastUpdate = 20,
                 firstChunk = False\<rparr>
   \<and> calls (snd (scan_loop sample_unmarshal
       ([] @ [arrives (''data: '' @ payload []) 10 20]) initial))
     = [Send []]"
proof -
  let ?h = "arrives (''data: '' @ payload ''Hel'') 10 20"
  let ?e = "arrives (''data: '' @ payload []) 700000020 700000030"
  let ?l = "arrives (''data: '' @ payload ''lo '') 200000020 200000030"
  let ?k = "arrives '': keep-alive'' 30 30"
  let ?f = "arrives (''data: '' @ payload []) 10 20"
  let ?s = "\<lparr>fullResponse = ''Hel'', msg = Some (TeleMessage 7), lastUpdate = 20,
             firstChunk = False\<rparr>"
  have r: "scan_loop sample_unmarshal heard_one initial =
      (Continue ?s, snd (scan_loop sample_unmarshal heard_one initial))"
    by (simp add: prod_eq_iff heard_one_def run_defs)
  have r0: "scan_loop sample_unmarshal [] initial = (Continue initial, [])"
    by simp
  have n: "first_fragment sample_unmarshal heard_one = Some ?h"
    and n0: "first_fragment sample_unmarshal [] = None"
    by (simp_all add: first_fragment_def heard_one_def run_defs spec_defs)
  have c: "calls (snd (scan_loop sample_unmarshal heard_one initial)) = [Send ''Hel'']"
    and t: "last_time (snd (scan_loop sample_unmarshal heard_one initial)) = Some 20"
    by (simp_all add: last_time_def heard_one_def run_defs)
  have fe: "fragment sample_unmarshal (line ?e) = Some []"
    and ff: "fragment sample_unmarshal (line ?f) = Some []"
    and fk: "fragment sample_unmarshal (line ?k) = None"
    by (simp_all add: run_defs spec_defs)
  have g: "concat (fragments sample_unmarshal (map line heard_one)) = ''Hel''"
    by (simp add: heard_one_def run_defs spec_defs)
  have d: "delivery ?h = Inr (TeleMessage 7)" "since_clock ?e = 700000020"
    "since_clock ?l = 200000020"
    by (simp_all add: arrives_def)
  from no_call_iff[OF r, of ?e ?h] n c t fe g d
  have 1: "calls (snd (scan_loop sample_unmarshal (heard_one @ [?e]) initial))
     = [Send ''Hel'', Edit (Some (TeleMessage 7)) ''Hel'']"
    by auto
  from no_call_iff[OF r, of ?l ?h] n c t d
  have 2: "calls (snd (scan_loop sample_unmarshal (heard_one @ [?l]) initial)) = [Send ''Hel'']"
    by auto
  from no_call_iff[OF r, of ?k ?h] fk
  have 3: "fst (scan_loop sample_unmarshal (heard_one @ [?k]) initial) = Continue ?s"
    by simp
  from no_call_iff[OF r0, of ?f ?h] n0 ff
  have 4: "calls (snd (scan_loop sample_unmarshal ([] @ [?f]) initial)) = [Send []]"
    by simp
  from 1 2 3 4 show ?thesis
    by blast
qed

text \<open>
  The claim as stated has no call for an empty fragment. A first fragment with an
  empty text is sent as a message, and an empty fragment that comes 700 ms after the
  first one leads to an edit.
\<close>

theorem empty_fragment_counterexample:
  "fragments sample_unmarshal (map line empty_first) = [[]]
   \<and> calls (snd (scan_loop sample_unmarshal empty_first initial)) = [Send []]
   \<and> fragments sample_unmarshal (map line empty_later) = [''Hel'', []]
   \<and> calls (snd (scan_loop sample_unmarshal empty_later initial))
       = [Send ''Hel'', Edit (Some (TeleMessage 7)) ''Hel'']"
  by (simp add: empty_first_def empty_later_def run_defs spec_defs)

section \<open>Lines that carry no fragment\<close>

text \<open>
  C3, as the code has it. For the line \<open>data: [DONE]\<close> the parsing gives \<open>nil, nil\<close>
  without asking the decoder, which is what it gives for a line without the prefix;
  the loop logs the line, changes nothing, and goes on with the lines that follow.
\<close>

theorem sentinel_is_skipped:
  assumes "line a = ''data: [DONE]''"
  shows "parseSSEResponse unmarshal (line a) = (Inr None, [])
       \<and> (\<not> HasPrefix l ''data: '' \<longrightarrow>
            parseSSEResponse unmarshal l = parseSSEResponse unmarshal (line a))
       \<and> scan_loop unmarshal (a # rest) s =
           (fst (scan_loop unmarshal rest s),
            Log (RawLine ''data: [DONE]'') # snd (scan_loop unmarshal rest s))"
proof -
  have k: "spec_decode unmarshal ''data: [DONE]'' = Sentinel"
    by (simp add: spec_decode_def)
  have b: "\<not> HasPrefix l ''data: '' \<longrightarrow> parseSSEResponse unmarshal l = (Inr None, [])"
    by (simp add: parseSSEResponse_def)
  from k have "fragment unmarshal (line a) = None"
    by (simp add: assms fragment_def)
  then have "body unmarshal a s = (Continue s, [Log (RawLine ''data: [DONE]'')])"
    by (simp add: body_by_fragment skip_log_def parse_by_kind assms k)
  with b show ?thesis
    by (simp add: assms parse_by_kind k scan_loop_step del: scan_loop.simps)
qed

theorem sentinel_is_skipped_witness:
  "line (arrives ''data: [DONE]'' 10 20) = ''data: [DONE]''
   \<and> \<not> HasPrefix '': keep-alive'' ''data: ''
   \<and> parseSSEResponse sample_unmarshal '': keep-alive'' = (Inr None, [])
   \<and> scan_loop sample_unmarshal after_sentinel initial =
       (Continue \<lparr>fullResponse = ''Hel'', msg = Some (TeleMessage 7), lastUpdate = 40,
                  firstChunk = False\<rparr>,
        Log (RawLine ''data: [DONE]'')
        # snd (scan_loop sample_unmarshal [arrives (''data: '' @ payload ''Hel'') 30 40] initial))"
proof -
  have h: "line (arrives ''data: [DONE]'' 10 20) = ''data: [DONE]''"
    by (simp add: arrives_def)
  have r: "fst (scan_loop sample_unmarshal [arrives (''data: '' @ payload ''Hel'') 30 40] initial)
     = Continue \<lparr>fullResponse = ''Hel'', msg = Some (TeleMessage 7), lastUpdate = 40,
                  firstChunk = False\<rparr>"
    by (simp add: run_defs)
  have n: "\<not> HasPrefix '': keep-alive'' ''data: ''"
    by (simp add: HasPrefix_def)
  from sentinel_is_skipped[OF h, where unmarshal = sample_unmarshal and l = "'': keep-alive''"
      and rest = "[arrives (''data: '' @ payload ''Hel'') 30 40]" and s = initial] h r n
  show ?thesis
    by (simp add: after_sentinel_def del: scan_loop.simps)
qed

text \<open>
  The claim as stated has a result of its own for the sentinel, and the loop ending
  there. The sentinel and a comment line parse to the same result, and the fragment
  that follows the sentinel is accumulated and sent.
\<close>

theorem sentinel_counterexample:
  "parseSSEResponse sample_unmarshal ''data: [DONE]''
     = parseSSEResponse sample_unmarshal '': keep-alive''
   \<and> map line after_sentinel = [''data: [DONE]'', ''data: '' @ payload ''Hel'']
   \<and> fst (scan_loop sample_unmarshal after_sentinel initial) =
       Continue \<lparr>fullResponse = ''Hel'', msg = Some (TeleMessage 7), lastUpdate = 40,
                  firstChunk = False\<rparr>
   \<and> calls (snd (scan_loop sample_unmarshal after_sentinel initial)) = [Send ''Hel'']"
  by (simp add: after_sentinel_def run_defs)

text \<open>
  C8. A line without the prefix, the empty line among them, parses to \<open>nil, nil\<close> and
  never to an error; the loop logs the line, changes nothing and goes on with the next
  line. A line with the prefix whose payload, left-trimmed, the decoder rejects,
  parses to an error and to no response; the payload handed to the decoder is logged,
  and the loop logs the line and the error, changes nothing and goes on with the next
  line. The payload \<open>[DONE]\<close> is not handed to the decoder.
\<close>

theorem decoding_never_fatal:
  "(\<not> HasPrefix (line a) ''data: '' \<longrightarrow>
      parseSSEResponse unmarshal (line a) = (Inr None, [])
      \<and> scan_loop unmarshal (a # rest) s =
          (fst (scan_loop unmarshal rest s),
           Log (RawLine (line a)) # snd (scan_loop unmarshal rest s)))
   \<and> (HasPrefix (line a) ''data: '' \<and> TrimPrefix (line a) ''data: '' \<noteq> ''[DONE]''
        \<and> unmarshal (TrimLeft (TrimPrefix (line a) ''data: '') cutset) = Inl err \<longrightarrow>
      parseSSEResponse unmarshal (line a) =
        (Inl (Wrapped ''unmarshal error'' err),
         [Log (RawDataCausingError (TrimLeft (TrimPrefix (line a) ''data: '') cutset))])
      \<and> scan_loop unmarshal (a # rest) s =
          (fst (scan_loop unmarshal rest s),
           [Log (RawLine (line a)),
            Log (RawDataCausingError (TrimLeft (TrimPrefix (line a) ''data: '') cutset)),
            Log (ErrorParsingSSE (Wrapped ''unmarshal error'' err))]
           @ snd (scan_loop unmarshal rest s)))"
proof (intro conjI impI)
  assume n: "\<not> HasPrefix (line a) ''data: ''"
  then show p: "parseSSEResponse unmarshal (line a) = (Inr None, [])"
    by (simp add: parseSSEResponse_def)
  from n have "fragment unmarshal (line a) = None"
    by (simp add: fragment_def spec_decode_def HasPrefix_data)
  with p have "body unmarshal a s = (Continue s, [Log (RawLine (line a))])"
    by (simp add: body_by_fragment skip_log_def)
  then show "scan_loop unmarshal (a # rest) s =
          (fst (scan_loop unmarshal rest s),
           Log (RawLine (line a)) # snd (scan_loop unmarshal rest s))"
    by (simp add: scan_loop_step del: scan_loop.simps)
next
  assume h: "HasPrefix (line a) ''data: '' \<and> TrimPrefix (line a) ''data: '' \<noteq> ''[DONE]''
        \<and> unmarshal (TrimLeft (TrimPrefix (line a) ''data: '') cutset) = Inl err"
  then show p: "parseSSEResponse unmarshal (line a) =
        (Inl (Wrapped ''unmarshal error'' err),
         [Log (RawDataCausingError (TrimLeft (TrimPrefix (line a) ''data: '') cutset))])"
    by (simp add: parseSSEResponse_def Let_def)
  from h have "TrimPrefix (line a) ''data: '' = drop 6 (line a)"
    by (simp add: HasPrefix_data TrimPrefix_data)
  with h have "fragment unmarshal (line a) = None"
    by (simp add: fragment_def spec_decode_def HasPrefix_data TrimLeft_def)
  with p have "body unmarshal a s =
      (Continue s,
       [Log (RawLine (line a)),
        Log (RawDataCausingError (TrimLeft (TrimPrefix (line a) ''data: '') cutset)),
        Log (ErrorParsingSSE (Wrapped ''unmarshal error'' err))])"
    by (simp add: body_by_fragment skip_log_def)
  then show "scan_loop unmarshal (a # rest) s =
          (fst (scan_loop unmarshal rest s),
           [Log (RawLine (line a)),
            Log (RawDataCausingError (TrimLeft (TrimPrefix (line a) ''data: '') cutset)),
            Log (ErrorParsingSSE (Wrapped ''unmarshal error'' err))]
           @ snd (scan_loop unmarshal rest s))"
    by (simp add: scan_loop_step del: scan_loop.simps)
qed

theorem decoding_never_fatal_witness:
  "\<not> HasPrefix (line (arrives [] 10 20)) ''data: ''
   \<and> scan_loop sample_unmarshal [arrives [] 10 20] initial = (Continue initial, [Log (RawLine [])])
   \<and> HasPrefix (line (arrives ''data:  {oops'' 10 20)) ''data: ''
   \<and> TrimPrefix (line (arrives ''data:  {oops'' 10 20)) ''data: '' \<noteq> ''[DONE]''
   \<and> sample_unmarshal (TrimLeft (TrimPrefix (line (arrives ''data:  {oops'' 10 20)) ''data: '') cutset)
       = Inl (LibError ''invalid character'')
   \<and> scan_loop sample_unmarshal [arrives ''data:  {oops'' 10 20] initial =
       (Continue initial,
        [Log (RawLine ''data:  {oops''), Log (RawDataCausingError ''{oops''),
         Log (ErrorParsingSSE (Wrapped ''unmarshal error'' (LibError ''invalid character'')))])"
proof -
  have b: "\<not> HasPrefix (line (arrives [] 10 20)) ''data: ''"
    by (simp add: run_defs)
  have m: "HasPrefix (line (arrives ''data:  {oops'' 10 20)) ''data: ''
     \<and> TrimPrefix (line (arrives ''data:  {oops'' 10 20)) ''data: '' \<noteq> ''[DONE]''
     \<and> sample_unmarshal (TrimLeft (TrimPrefix (line (arrives ''data:  {oops'' 10 20)) ''data: '') cutset)
         = Inl (LibError ''invalid character'')"
    by (simp add: run_defs)
  have t: "TrimLeft (TrimPrefix (line (arrives ''data:  {oops'' 10 20)) ''data: '') cutset = ''{oops''"
    by (simp add: run_defs)
  from decoding_never_fatal[where a = "arrives [] 10 20" and unmarshal = sample_unmarshal
      and rest = "[]" and s = initial] b
  have 1: "scan_loop sample_unmarshal [arrives [] 10 20] initial = (Continue initial, [Log (RawLine [])])"
    by (simp add: arrives_def del: scan_loop.simps(2))
  from decoding_never_fatal[where a = "arrives ''data:  {oops'' 10 20"
      and unmarshal = sample_unmarshal and err = "LibError ''invalid character''"
      and rest = "[]" and s = initial] m
  have 2: "scan_loop sample_unmarshal [arrives ''data:  {oops'' 10 20] initial =
       (Continue initial,
        [Log (RawLine ''data:  {oops''), Log (RawDataCausingError ''{oops''),
         Log (ErrorParsingSSE (Wrapped ''unmarshal error'' (LibError ''invalid character'')))])"
    unfolding t by (simp add: arrives_def del: scan_loop.simps(2))
  from b m 1 2 show ?thesis
    by blast
qed

section \<open>Failures of delivery and of reading\<close>




text \<open>
  C2, as the code has it. A failed read ends the loop as the end of the body does,
  and the handler does not ask the scanner for its error. With a text accumulated,
  the final edit with the marker is made and \<open>saveMessage\<close> is called with the text,
  as after a body read to its end.
\<close>

theorem read_failure_finalizes:
  assumes "read_err resp = Some e"
    and "scan_loop unmarshal (arrivals resp) initial = (Continue s, evs)"
    and "fullResponse s \<noteq> []"
  shows "stream unmarshal resp cl tid userMsg =
      (None,
       evs
       @ Outbound (Edit (msg s) (fullResponse s @ marker)) (final_edit cl) None
       # log_if ErrorSendingFinalUpdate (final_edit cl)
       @ SaveMessage tid userMsg (fullResponse s) (save_result cl)
       # log_if ErrorSavingMessages (save_result cl))
    \<and> stream unmarshal resp cl tid userMsg =
        stream unmarshal (resp\<lparr>read_err := None\<rparr>) cl tid userMsg"
proof -
  have "finish cl (resp\<lparr>read_err := None\<rparr>) tid userMsg s = finish cl resp tid userMsg s"
    by (simp add: finish_def)
  with assms(2) have "stream unmarshal (resp\<lparr>read_err := None\<rparr>) cl tid userMsg =
      stream unmarshal resp cl tid userMsg"
    by (simp add: stream_def Let_def)
  with stream_finishes[OF assms(2)] finish_nonempty[OF assms(3)] show ?thesis
    by simp
qed

theorem read_failure_finalizes_witness:
  "read_err dropped = Some (LibError ''unexpected EOF'')
   \<and> fullResponse \<lparr>fullResponse = ''Hel'', msg = Some (TeleMessage 7), lastUpdate = 20,
        firstChunk = False\<rparr> \<noteq> []
   \<and> stream sample_unmarshal dropped quiet 42 ''hi'' =
       (None,
        [Log (RawLine (''data: '' @ payload ''Hel'')), Log (ReceivedChunk ''Hel''),
         Outbound (Send ''Hel'') None (Some 20),
         Outbound (Edit (Some (TeleMessage 7)) (''Hel'' @ marker)) None None,
         SaveMessage 42 ''hi'' ''Hel'' None])"
proof -
  have e: "read_err dropped = Some (LibError ''unexpected EOF'')"
    by (simp add: dropped_def)
  have l: "scan_loop sample_unmarshal (arrivals dropped) initial =
     (Continue \<lparr>fullResponse = ''Hel'', msg = Some (TeleMessage 7), lastUpdate = 20,
                firstChunk = False\<rparr>,
      [Log (RawLine (''data: '' @ payload ''Hel'')), Log (ReceivedChunk ''Hel''),
       Outbound (Send ''Hel'') None (Some 20)])"
    by (simp add: dropped_def run_defs)
  have n: "fullResponse \<lparr>fullResponse = ''Hel'', msg = Some (TeleMessage 7), lastUpdate = 20,
        firstChunk = False\<rparr> \<noteq> []"
    by simp
  from read_failure_finalizes[OF e l n, of quiet 42 "''hi''"] e n show ?thesis
    by (simp add: quiet_def log_if_def)
qed

text \<open>
  The claim as stated has neither a final edit nor a call of \<open>saveMessage\<close> after a
  failed read. Here the connection drops after the first fragment: the final edit is
  made and the fragment is saved.
\<close>

theorem read_failure_counterexample:
  "read_err dropped = Some (LibError ''unexpected EOF'')
   \<and> saved (snd (stream sample_unmarshal dropped quiet 42 ''hi'')) = [(42, ''hi'', ''Hel'')]
   \<and> calls (snd (stream sample_unmarshal dropped quiet 42 ''hi'')) =
       [Send ''Hel'', Edit (Some (TeleMessage 7)) (''Hel'' @ marker)]"
  by (simp add: stream_def finish_def log_if_def dropped_def run_defs)

section \<open>What is saved\<close>

lemma loop_call_texts:
  assumes "firstChunk s \<longrightarrow> fullResponse s = []"
  shows "\<forall>c\<in>set (calls (snd (scan_loop um xs s))).
           \<exists>n. text_of c = fullResponse s @ concat (take n (fragments um (map line xs)))"
  using assms
proof (induction xs arbitrary: s)
  case Nil
  show ?case by simp
next
  case (Cons a xs)
  show ?case
  proof (cases "fragment um (line a)")
    case None
    with Cons.IH[OF Cons.prems] show ?thesis
      by (simp add: scan_loop_step body_by_fragment calls_append skip_log_calls fragments_None
          del: scan_loop.simps)
  next
    case (Some chunk)
    let ?fs = "chunk # fragments um (map line xs)"
    have here: "\<forall>c\<in>set (calls (snd (on_chunk a chunk s))).
        \<exists>n. text_of c = fullResponse s @ concat (take n ?fs)"
    proof
      fix c assume "c \<in> set (calls (snd (on_chunk a chunk s)))"
      with Cons.prems have "text_of c = fullResponse s @ concat (take (Suc 0) ?fs)"
        by (auto simp: on_chunk_calls text_of_def split: if_splits)
      then show "\<exists>n. text_of c = fullResponse s @ concat (take n ?fs)" ..
    qed
    show ?thesis
    proof (cases "fst (on_chunk a chunk s)")
      case (Return r)
      with Some have "calls (snd (scan_loop um (a # xs) s)) = calls (snd (on_chunk a chunk s))"
        by (simp add: scan_loop_step body_by_fragment del: scan_loop.simps)
      with here show ?thesis
        by (simp add: fragments_Some[OF Some])
    next
      case (Continue s1)
      then have s1: "fullResponse s1 = fullResponse s @ chunk" and f1: "\<not> firstChunk s1"
        by (auto simp: on_chunk_flow split: if_splits sum.splits)
      from Cons.IH[of s1] f1 s1 have later:
        "\<forall>c\<in>set (calls (snd (scan_loop um xs s1))).
           \<exists>n. text_of c = fullResponse s @ chunk @ concat (take n (fragments um (map line xs)))"
        by simp
      have after: "\<forall>c\<in>set (calls (snd (scan_loop um xs s1))).
           \<exists>n. text_of c = fullResponse s @ concat (take n ?fs)"
      proof
        fix c assume "c \<in> set (calls (snd (scan_loop um xs s1)))"
        with later obtain n where
          "text_of c = fullResponse s @ chunk @ concat (take n (fragments um (map line xs)))"
          by blast
        then have "text_of c = fullResponse s @ concat (take (Suc n) ?fs)"
          by simp
        then show "\<exists>n. text_of c = fullResponse s @ concat (take n ?fs)" ..
      qed
      from Some Continue have "calls (snd (scan_loop um (a # xs) s)) =
          calls (snd (on_chunk a chunk s)) @ calls (snd (scan_loop um xs s1))"
        by (simp add: scan_loop_step body_by_fragment calls_append del: scan_loop.simps)
      with here after show ?thesis
        by (auto simp: fragments_Some[OF Some])
    qed
  qed
qed

text \<open>
  C10. When the loop ends with a text accumulated, \<open>saveMessage\<close> is called once,
  with the user's text and with the accumulated text as it is: the concatenation of
  the fragments, without the marker. The marker is appended for the final edit, the
  last outbound call; every call before it carries a concatenation of the first
  fragments as they came.
\<close>

theorem persisted_without_marker:
  assumes "scan_loop unmarshal (arrivals resp) initial = (Continue s, evs)"
    and "fullResponse s \<noteq> []"
  shows "saved (snd (stream unmarshal resp cl tid userMsg)) =
      [(tid, userMsg, concat (fragments unmarshal (map line (arrivals resp))))]
    \<and> calls (snd (stream unmarshal resp cl tid userMsg)) =
        calls evs
        @ [Edit (msg s) (concat (fragments unmarshal (map line (arrivals resp))) @ marker)]
    \<and> (\<forall>c\<in>set (calls evs).
          \<exists>n. text_of c = concat (take n (fragments unmarshal (map line (arrivals resp)))))"
proof -
  from scan_loop_accumulates[OF assms(1)]
  have acc: "fullResponse s = concat (fragments unmarshal (map line (arrivals resp)))"
    by (simp add: initial_def)
  from scan_loop_saved[of unmarshal "arrivals resp" initial] assms(1) have "saved evs = []"
    by simp
  moreover from loop_call_texts[of initial unmarshal "arrivals resp"] assms(1)
  have "\<forall>c\<in>set (calls evs).
          \<exists>n. text_of c = concat (take n (fragments unmarshal (map line (arrivals resp))))"
    by (simp add: initial_def)
  ultimately show ?thesis
    using acc[symmetric]
    by (simp add: stream_finishes[OF assms(1)] finish_nonempty[OF assms(2)] saved_append
        calls_append log_if_calls log_if_saved)
qed

theorem persisted_without_marker_witness:
  "fst (scan_loop sample_unmarshal (arrivals (ok_response scenario)) initial) =
      Continue \<lparr>fullResponse = ''Hello world'', msg = Some (TeleMessage 7),
                 lastUpdate = 700000030, firstChunk = False\<rparr>
   \<and> saved (snd (stream sample_unmarshal (ok_response scenario) quiet 42 ''hi'')) =
       [(42, ''hi'', ''Hello world'')]
   \<and> calls (snd (stream sample_unmarshal (ok_response scenario) quiet 42 ''hi'')) =
       [Send ''Hel'', Edit (Some (TeleMessage 7)) ''Hello world'',
        Edit (Some (TeleMessage 7)) (''Hello world'' @ marker)]"
proof -
  have f: "fst (scan_loop sample_unmarshal (arrivals (ok_response scenario)) initial) =
      Continue \<lparr>fullResponse = ''Hello world'', msg = Some (TeleMessage 7),
                 lastUpdate = 700000030, firstChunk = False\<rparr>"
    by (simp add: run_defs)
  then have l: "scan_loop sample_unmarshal (arrivals (ok_response scenario)) initial =
     (Continue \<lparr>fullResponse = ''Hello world'', msg = Some (TeleMessage 7),
                 lastUpdate = 700000030, firstChunk = False\<rparr>,
      snd (scan_loop sample_unmarshal (arrivals (ok_response scenario)) initial))"
    by (simp add: prod_eq_iff)
  have n: "fullResponse \<lparr>fullResponse = ''Hello world'', msg = Some (TeleMessage 7),
                 lastUpdate = 700000030, firstChunk = False\<rparr> \<noteq> []"
    by simp
  have c: "calls (snd (scan_loop sample_unmarshal (arrivals (ok_response scenario)) initial)) =
      [Send ''Hel'', Edit (Some (TeleMessage 7)) ''Hello world'']"
    by (simp add: run_defs)
  have g: "concat (fragments sample_unmarshal (map line (arrivals (ok_response scenario))))
      = ''Hello world''"
    by (simp add: run_defs spec_defs)
  from persisted_without_marker[OF l n, of quiet 42 "''hi''"] f c g show ?thesis
    by simp
qed

section \<open>The history\<close>


















end
